theory Spec2Isabelle
  imports Main
begin

section \<open>Data model of the chat client (WebSocketService.ts)\<close>

text \<open>
  A listener is a JavaScript function object; \<open>indexOf\<close> compares such objects by
  reference, so a listener is identified by a number. What a listener does when it is
  called is given separately, by a table from listener to body.
\<close>

type_synonym lid = nat

text \<open>
  The value handed to a listener (\<open>data: any\<close> in the source). The send pipeline
  dispatches objects \<open>{code, message}\<close>; frames received from the server are kept as
  their text.
\<close>

datatype notice = Notice string string | Received string

text \<open>
  The body of a listener, as far as the service can observe it: calls to the public
  \<open>addListener\<close> and \<open>removeListener\<close>, and a \<open>throw\<close>, which ends the body.
\<close>

datatype call = AddListener string lid | RemoveListener string lid | Throw

text \<open>
  The STOMP \<open>Client\<close> object of the library: \<open>activate()\<close> sets \<open>activated\<close>
  and \<open>deactivate()\<close> clears it; \<open>connected\<close> is set and cleared by the transport.
  \<open>deactivate()\<close> is asynchronous and \<open>disconnect\<close> does not await it: the connection
  of a deactivated client is closed later, by an event of the transport.
\<close>

record client_obj =
  activated :: bool
  connected :: bool

text \<open>The object built at lines 161-167; \<open>'p\<close> is the type \<open>ChatPhoto\<close>.\<close>

record 'p payload =
  chatRoomId :: int
  message :: string
  senderType :: string
  senderId :: "string option"
  photos :: "'p list"

text \<open>An argument of \<open>client.publish\<close>, with the client it was called on.\<close>

record 'p frame =
  via :: nat
  destination :: string
  body :: "'p payload"
  content_type :: string

text \<open>
  The fields of the class (\<open>client\<close>, \<open>listeners\<close>, \<open>userId\<close>), then what the
  class acts on: the \<open>Client\<close> objects it has constructed, by address (\<open>client\<close> is
  an address or null), the frames published, the existence checks requested and the
  listener invocations, each in the order they happened.
\<close>

record 'p service =
  client :: "nat option"
  listeners :: "string \<rightharpoonup> lid list"
  userId :: "string option"
  heap :: "client_obj list"
  published :: "'p frame list"
  requested :: "int list"
  invoked :: "(string \<times> lid \<times> notice) list"

text \<open>The state of \<open>new WebSocketService()\<close>.\<close>

definition initial :: "'p service" where
  "initial = \<lparr>client = None, listeners = [''message'' \<mapsto> [], ''error'' \<mapsto> []],
     userId = None, heap = [], published = [], requested = [], invoked = []\<rparr>"

section \<open>The listener registry\<close>

text \<open>
  The registry is the object \<open>this.listeners\<close>, read and written by event name. The
  map models its own properties. The names that every object inherits (\<open>constructor\<close>,
  \<open>toString\<close> and the like), for which the source reads a function instead of an
  array and throws a TypeError, are not event names of the model.
\<close>

text \<open>\<open>Array.prototype.indexOf\<close>: the first index holding the value, or -1.\<close>

fun indexOf :: "'a list \<Rightarrow> 'a \<Rightarrow> int" where
  "indexOf [] a = -1"
| "indexOf (x # xs) a = (if x = a then 0 else (let i = indexOf xs a in if i = -1 then -1 else i + 1))"

text \<open>\<open>splice(index, 1)\<close> for an index inside the array.\<close>

definition splice1 :: "'a list \<Rightarrow> nat \<Rightarrow> 'a list" where
  "splice1 xs i = take i xs @ drop (Suc i) xs"

definition addListener :: "string \<Rightarrow> lid \<Rightarrow> 'p service \<Rightarrow> 'p service" where
  "addListener event callback s =
     (let ls = (case listeners s event of None \<Rightarrow> [] | Some ls \<Rightarrow> ls)
      in s\<lparr>listeners := (listeners s)(event \<mapsto> ls @ [callback])\<rparr>)"

definition removeListener :: "string \<Rightarrow> lid \<Rightarrow> 'p service \<Rightarrow> 'p service" where
  "removeListener event callback s =
     (case listeners s event of
        None \<Rightarrow> s
      | Some ls \<Rightarrow>
          (let index = indexOf ls callback
           in if index \<noteq> -1 then s\<lparr>listeners := (listeners s)(event \<mapsto> splice1 ls (nat index))\<rparr>
              else s))"

text \<open>
  Running a listener body. The \<open>try/catch\<close> around the call in \<open>notifyListeners\<close>
  swallows the exception, so a \<open>throw\<close> only drops the rest of the body.
\<close>

fun run_body :: "call list \<Rightarrow> 'p service \<Rightarrow> 'p service" where
  "run_body [] s = s"
| "run_body (AddListener e l # cs) s = run_body cs (addListener e l s)"
| "run_body (RemoveListener e l # cs) s = run_body cs (removeListener e l s)"
| "run_body (Throw # cs) s = s"

definition invoke :: "(lid \<Rightarrow> call list) \<Rightarrow> string \<Rightarrow> lid \<Rightarrow> notice \<Rightarrow> 'p service \<Rightarrow> 'p service" where
  "invoke B event l d s = run_body (B l) (s\<lparr>invoked := invoked s @ [(event, l, d)]\<rparr>)"

text \<open>
  \<open>Array.prototype.forEach\<close> on the array \<open>this.listeners[event]\<close>: the length is read
  once, before the loop; each index below it is visited if the array still has it at that
  moment, and the element is read from the array as it is then. The array object of an
  event is never replaced once it exists, so the array the loop reads is the one the
  registry holds.
\<close>

function forEach :: "(lid \<Rightarrow> call list) \<Rightarrow> string \<Rightarrow> notice \<Rightarrow> nat \<Rightarrow> nat \<Rightarrow> 'p service \<Rightarrow> 'p service" where
  "forEach B event d k len s =
     (if k < len then
        (case listeners s event of
           None \<Rightarrow> forEach B event d (Suc k) len s
         | Some ls \<Rightarrow>
             if k < length ls then forEach B event d (Suc k) len (invoke B event (ls ! k) d s)
             else forEach B event d (Suc k) len s)
      else s)"
  by pat_completeness auto
termination
  by (relation "measure (\<lambda>(B, event, d, k, len, s). len - k)") auto

declare forEach.simps [simp del]

definition notifyListeners :: "(lid \<Rightarrow> call list) \<Rightarrow> string \<Rightarrow> notice \<Rightarrow> 'p service \<Rightarrow> 'p service" where
  "notifyListeners B event d s =
     (case listeners s event of
        None \<Rightarrow> s
      | Some ls \<Rightarrow> if length ls > 0 then forEach B event d 0 (length ls) s else s)"


text \<open>
  A listener body that leaves the array of \<open>event\<close> alone: up to its first
  \<open>throw\<close> it adds and removes listeners of other events only.
\<close>

fun quiet :: "string \<Rightarrow> call list \<Rightarrow> bool" where
  "quiet event [] = True"
| "quiet event (AddListener e l # cs) = (e \<noteq> event \<and> quiet event cs)"
| "quiet event (RemoveListener e l # cs) = (e \<noteq> event \<and> quiet event cs)"
| "quiet event (Throw # cs) = True"

section \<open>Session lifecycle: initialize, disconnect\<close>

definition new_client :: client_obj where
  "new_client = \<lparr>activated = False, connected = False\<rparr>"

definition activate :: "nat \<Rightarrow> client_obj list \<Rightarrow> client_obj list" where
  "activate c h = (if c < length h then h[c := (h ! c)\<lparr>activated := True\<rparr>] else h)"

definition deactivate :: "nat \<Rightarrow> client_obj list \<Rightarrow> client_obj list" where
  "deactivate c h = (if c < length h then h[c := (h ! c)\<lparr>activated := False\<rparr>] else h)"

text \<open>\<open>this.client !== null && this.client.connected\<close>.\<close>

definition isConnected :: "'p service \<Rightarrow> bool" where
  "isConnected s =
     (case client s of None \<Rightarrow> False | Some c \<Rightarrow> c < length (heap s) \<and> connected (heap s ! c))"

definition disconnect :: "'p service \<Rightarrow> 'p service" where
  "disconnect s =
     (case client s of
        None \<Rightarrow> s
      | Some c \<Rightarrow> s\<lparr>client := None, heap := deactivate c (heap s)\<rparr>)"

text \<open>
  \<open>initialize\<close>: store the user, disconnect if (and only if) the current client is
  connected, construct a client, install its handlers, activate it. The handlers are
  closures that run later, on events of the transport; they are not part of the state.
\<close>

definition initialize :: "string \<Rightarrow> 'p service \<Rightarrow> 'p service" where
  "initialize uid s =
     (let s1 = s\<lparr>userId := Some uid\<rparr>;
          s2 = (if isConnected s1 then disconnect s1 else s1);
          c = length (heap s2);
          s3 = s2\<lparr>client := Some c, heap := heap s2 @ [new_client]\<rparr>
      in s3\<lparr>heap := activate c (heap s3)\<rparr>)"

text \<open>
  What the transport does to a client: it acknowledges the connection of an activated
  client, and it closes the connection of a client. An activated client whose connection
  is closed stays activated and reconnects after \<open>reconnectDelay\<close>; a deactivated
  one stays closed.
\<close>

definition connect_ack :: "nat \<Rightarrow> 'p service \<Rightarrow> 'p service" where
  "connect_ack c s =
     (if c < length (heap s) \<and> activated (heap s ! c)
      then s\<lparr>heap := (heap s)[c := (heap s ! c)\<lparr>connected := True\<rparr>]\<rparr> else s)"

definition connection_lost :: "nat \<Rightarrow> 'p service \<Rightarrow> 'p service" where
  "connection_lost c s =
     (if c < length (heap s)
      then s\<lparr>heap := (heap s)[c := (heap s ! c)\<lparr>connected := False\<rparr>]\<rparr> else s)"

text \<open>
  The clients on which \<open>activate()\<close> has been called and \<open>deactivate()\<close> has not: the
  sessions that connect, reconnect and deliver until they are told to close. A client
  that is no longer in this list can still be connected for a while.
\<close>

definition activated_clients :: "'p service \<Rightarrow> nat list" where
  "activated_clients s = filter (\<lambda>c. activated (heap s ! c)) [0..<length (heap s)]"

text \<open>A history of the service: calls of its lifecycle methods and transport events.\<close>

datatype step = Open string | Close | Ack nat | Lost nat

fun exec :: "step \<Rightarrow> 'p service \<Rightarrow> 'p service" where
  "exec (Open uid) s = initialize uid s"
| "exec Close s = disconnect s"
| "exec (Ack c) s = connect_ack c s"
| "exec (Lost c) s = connection_lost c s"

fun run :: "step list \<Rightarrow> 'p service \<Rightarrow> 'p service" where
  "run [] s = s"
| "run (x # xs) s = run xs (exec x s)"

text \<open>
  A history in which every \<open>initialize\<close> finds the service either without a client or
  with a connected one.
\<close>

fun settled :: "step list \<Rightarrow> 'p service \<Rightarrow> bool" where
  "settled [] s = True"
| "settled (Open uid # xs) s =
     ((client s = None \<or> isConnected s) \<and> settled xs (exec (Open uid) s))"
| "settled (x # xs) s = settled xs (exec x s)"

section \<open>The send pipeline\<close>

text \<open>
  The outcome of an \<open>axios\<close> request: resolved with a value, or rejected with an error
  that carries the status of the response when there was a response.
\<close>

datatype 'a http = Resolved 'a | Rejected "nat option"

text \<open>
  How \<open>sendMessageWithPhotos\<close> can reject: with \<open>new Error('WebSocket is not
  connected')\<close>, with the error of the existence check, or with the TypeError of a call
  on a null client.
\<close>

datatype send_error = NotConnected | CheckRejected "nat option" | NullClient

text \<open>The string literals of the source that are not ASCII, as their UTF-8 bytes.\<close>

definition photo_placeholder :: string where
  "photo_placeholder =
     [CHR 0xEC, CHR 0x82, CHR 0xAC, CHR 0xEC, CHR 0xA7, CHR 0x84, CHR 0xEC, CHR 0x9D,
    CHR 0x84, CHR 0x20, CHR 0xEB, CHR 0xB3, CHR 0xB4, CHR 0xEB, CHR 0x83, CHR 0x88,
    CHR 0xEC, CHR 0x8A, CHR 0xB5, CHR 0xEB, CHR 0x8B, CHR 0x88, CHR 0xEB, CHR 0x8B,
    CHR 0xA4, CHR 0x2E]"

definition deleted_text :: string where
  "deleted_text =
     [CHR 0xEC, CHR 0x82, CHR 0xAD, CHR 0xEC, CHR 0xA0, CHR 0x9C, CHR 0xEB, CHR 0x90,
    CHR 0x9C, CHR 0x20, CHR 0xEC, CHR 0xB1, CHR 0x84, CHR 0xED, CHR 0x8C, CHR 0x85,
    CHR 0xEB, CHR 0xB0, CHR 0xA9, CHR 0xEC, CHR 0x9E, CHR 0x85, CHR 0xEB, CHR 0x8B,
    CHR 0x88, CHR 0xEB, CHR 0x8B, CHR 0xA4, CHR 0x2E]"

definition disconnected_text :: string where
  "disconnected_text =
     [CHR 0x57, CHR 0x65, CHR 0x62, CHR 0x53, CHR 0x6F, CHR 0x63, CHR 0x6B, CHR 0x65,
    CHR 0x74, CHR 0x20, CHR 0xEC, CHR 0x97, CHR 0xB0, CHR 0xEA, CHR 0xB2, CHR 0xB0,
    CHR 0xEC, CHR 0x9D, CHR 0xB4, CHR 0x20, CHR 0xEB, CHR 0x81, CHR 0x8A, CHR 0xEC,
    CHR 0x96, CHR 0xB4, CHR 0xEC, CHR 0xA1, CHR 0x8C, CHR 0xEC, CHR 0x8A, CHR 0xB5,
    CHR 0xEB, CHR 0x8B, CHR 0x88, CHR 0xEB, CHR 0x8B, CHR 0xA4, CHR 0x2E, CHR 0x20,
    CHR 0xED, CHR 0x8E, CHR 0x98, CHR 0xEC, CHR 0x9D, CHR 0xB4, CHR 0xEC, CHR 0xA7,
    CHR 0x80, CHR 0xEB, CHR 0xA5, CHR 0xBC, CHR 0x20, CHR 0xEC, CHR 0x83, CHR 0x88,
    CHR 0xEB, CHR 0xA1, CHR 0x9C, CHR 0xEA, CHR 0xB3, CHR 0xA0, CHR 0xEC, CHR 0xB9,
    CHR 0xA8, CHR 0xED, CHR 0x95, CHR 0xB4, CHR 0x20, CHR 0xEC, CHR 0xA3, CHR 0xBC,
    CHR 0xEC, CHR 0x84, CHR 0xB8, CHR 0xEC, CHR 0x9A, CHR 0x94, CHR 0x2E]"

definition connection_error :: notice where
  "connection_error = Notice ''CONNECTION_ERROR'' disconnected_text"

definition chat_room_deleted :: notice where
  "chat_room_deleted = Notice ''CHAT_ROOM_DELETED'' deleted_text"

text \<open>Lines 161-178: build the payload, publish it on the current client, return it.\<close>

definition messagePayload :: "int \<Rightarrow> string \<Rightarrow> string \<Rightarrow> 'p list \<Rightarrow> 'p service \<Rightarrow> 'p payload" where
  "messagePayload room content sender ps s =
     \<lparr>chatRoomId = room,
      message = (if content \<noteq> [] then content
                 else if length ps > 0 then photo_placeholder else []),
      senderType = sender,
      senderId = userId s,
      photos = ps\<rparr>"

definition publish :: "'p payload \<Rightarrow> 'p service \<Rightarrow> (send_error + 'p payload) \<times> 'p service" where
  "publish m s =
     (case client s of
        None \<Rightarrow> (Inl NullClient, s)
      | Some c \<Rightarrow>
          (Inr m, s\<lparr>published := published s @
             [\<lparr>via = c, destination = ''/app/chat.sendMessage'', body = m,
               content_type = ''application/json''\<rparr>]\<rparr>))"

text \<open>
  \<open>api\<close> is the server behind \<open>GET /api/chat/room/{chatRoomId}\<close>. The state of the
  service is taken not to change while the request is awaited.
\<close>

definition sendMessageWithPhotos ::
  "(lid \<Rightarrow> call list) \<Rightarrow> (int \<Rightarrow> unit http) \<Rightarrow> int \<Rightarrow> string \<Rightarrow> string \<Rightarrow> 'p list \<Rightarrow>
   'p service \<Rightarrow> (send_error + 'p payload) \<times> 'p service" where
  "sendMessageWithPhotos B api room content sender ps s =
     (if \<not> isConnected s
      then (Inl NotConnected, notifyListeners B ''error'' connection_error s)
      else
        (let s1 = s\<lparr>requested := requested s @ [room]\<rparr>
         in case api room of
              Resolved _ \<Rightarrow> publish (messagePayload room content sender ps s1) s1
            | Rejected status \<Rightarrow>
                if status = Some 404
                then (Inl (CheckRejected status), notifyListeners B ''error'' chat_room_deleted s1)
                else publish (messagePayload room content sender ps s1) s1))"

definition sendMessage ::
  "(lid \<Rightarrow> call list) \<Rightarrow> (int \<Rightarrow> unit http) \<Rightarrow> int \<Rightarrow> string \<Rightarrow> string \<Rightarrow>
   'p service \<Rightarrow> (send_error + 'p payload) \<times> 'p service" where
  "sendMessage B api room content sender s = sendMessageWithPhotos B api room content sender [] s"

section \<open>The attachment upload adapter (AdminFileUploadService)\<close>

text \<open>A browser \<open>File\<close>, by the two properties the adapter reads.\<close>

record File =
  file_name :: string
  file_size :: nat

record UploadResult =
  fileUrl :: string
  fileName :: string
  fileSize :: nat

text \<open>
  How \<open>uploadImage\<close> can reject: with the \<open>Error\<close> thrown by the size check, or with
  the error of the POST request. The \<open>catch\<close> logs the error and throws it again.
\<close>

datatype upload_error = FileTooLarge | PostRejected "nat option"

definition MAX_FILE_SIZE :: nat where
  "MAX_FILE_SIZE = 10 * 1024 * 1024"

text \<open>
  \<open>post\<close> is the server behind \<open>POST /api/admin/chat/upload\<close>, answering with the
  \<open>fileUrl\<close> of its response; the state is the list of requests sent to it.
\<close>

definition uploadImage ::
  "(File \<Rightarrow> int \<Rightarrow> string http) \<Rightarrow> File \<Rightarrow> int \<Rightarrow> (File \<times> int) list \<Rightarrow>
   (upload_error + UploadResult) \<times> (File \<times> int) list" where
  "uploadImage post f room sent =
     (if file_size f > MAX_FILE_SIZE then (Inl FileTooLarge, sent)
      else
        (let sent1 = sent @ [(f, room)]
         in case post f room of
              Resolved url \<Rightarrow>
                (Inr \<lparr>fileUrl = url, fileName = file_name f, fileSize = file_size f\<rparr>, sent1)
            | Rejected status \<Rightarrow> (Inl (PostRejected status), sent1)))"

text \<open>
  \<open>files.map(file => this.uploadImage(file, chatRoomId))\<close>: every upload is started, in
  the order of the files.
\<close>

fun uploadPromises ::
  "(File \<Rightarrow> int \<Rightarrow> string http) \<Rightarrow> File list \<Rightarrow> int \<Rightarrow> (File \<times> int) list \<Rightarrow>
   (upload_error + UploadResult) list \<times> (File \<times> int) list" where
  "uploadPromises post [] room sent = ([], sent)"
| "uploadPromises post (f # fs) room sent =
     (let (r, sent1) = uploadImage post f room sent;
          (rs, sent2) = uploadPromises post fs room sent1
      in (r # rs, sent2))"

text \<open>
  \<open>Promise.all\<close>: the values in the order of the promises when all are fulfilled, a
  rejection when one is rejected. Of several rejections the earliest in time is reported;
  the model reports the first in the order of the list, which is the order in which the
  size check rejects.
\<close>

fun promise_all :: "('e + 'a) list \<Rightarrow> 'e + 'a list" where
  "promise_all [] = Inr []"
| "promise_all (Inl e # rs) = Inl e"
| "promise_all (Inr a # rs) = (case promise_all rs of Inl e \<Rightarrow> Inl e | Inr as \<Rightarrow> Inr (a # as))"

definition uploadMultipleImages ::
  "(File \<Rightarrow> int \<Rightarrow> string http) \<Rightarrow> File list \<Rightarrow> int \<Rightarrow> (File \<times> int) list \<Rightarrow>
   (upload_error + UploadResult list) \<times> (File \<times> int) list" where
  "uploadMultipleImages post files room sent =
     (let (rs, sent1) = uploadPromises post files room sent in (promise_all rs, sent1))"

text \<open>
  The page holds both singletons: the chat service and the upload service. The upload
  service has no reference to the chat service.
\<close>

record 'p page =
  webSocketService :: "'p service"
  upload_requests :: "(File \<times> int) list"

definition page_uploadImage ::
  "(File \<Rightarrow> int \<Rightarrow> string http) \<Rightarrow> File \<Rightarrow> int \<Rightarrow> 'p page \<Rightarrow>
   (upload_error + UploadResult) \<times> 'p page" where
  "page_uploadImage post f room w =
     (let (r, sent) = uploadImage post f room (upload_requests w)
      in (r, w\<lparr>upload_requests := sent\<rparr>))"

section \<open>The storage backend (NCPObjectStorageService.deleteFolder)\<close>

text \<open>
  The calls made on the S3 client, in order. \<open>listObjects\<close> and \<open>deleteObjects\<close> are the
  client's answers (a list of keys, or an exception of type \<open>'x\<close>); the method neither
  catches nor wraps an exception.
\<close>

datatype s3_call = ListObjects string string | DeleteObjects string "string list"

definition deleteFolder ::
  "(string \<Rightarrow> string \<Rightarrow> 'x + string list) \<Rightarrow> (string \<Rightarrow> string list \<Rightarrow> 'x + unit) \<Rightarrow>
   string \<Rightarrow> string \<Rightarrow> s3_call list \<Rightarrow> ('x + unit) \<times> s3_call list" where
  "deleteFolder listObjects deleteObjects bucketName prefix calls =
     (let calls1 = calls @ [ListObjects bucketName prefix]
      in case listObjects bucketName prefix of
           Inl e \<Rightarrow> (Inl e, calls1)
         | Inr keys \<Rightarrow>
             if keys \<noteq> []
             then (let calls2 = calls1 @ [DeleteObjects bucketName keys]
                   in case deleteObjects bucketName keys of
                        Inl e \<Rightarrow> (Inl e, calls2)
                      | Inr _ \<Rightarrow> (Inr (), calls2))
             else (Inr (), calls1))"

section \<open>An invariant of the lifecycle, and concrete inputs\<close>

text \<open>
  A table in which listener \<open>l\<close> removes itself from \<open>event\<close> and every other
  listener does nothing; services with two and with three listeners.
\<close>

definition self_remover :: "string \<Rightarrow> lid \<Rightarrow> lid \<Rightarrow> call list" where
  "self_remover event l = (\<lambda>x. if x = l then [RemoveListener event l] else [])"

definition two_listeners :: "nat service" where
  "two_listeners = addListener ''error'' 1 (addListener ''error'' 0 initial)"

definition three_listeners :: "nat service" where
  "three_listeners =
     addListener ''message'' 2 (addListener ''message'' 1 (addListener ''message'' 0 initial))"

text \<open>
  The only client that may be activated is the one the service holds, and the service
  holds a client it has constructed.
\<close>

definition sole_owner :: "'p service \<Rightarrow> bool" where
  "sole_owner s =
     ((\<forall>c\<in>set (activated_clients s). client s = Some c) \<and>
      (case client s of None \<Rightarrow> True | Some c \<Rightarrow> c < length (heap s)))"

text \<open>A history: a user opens a session, it connects, the user opens again, it connects.\<close>

definition reopened :: "step list" where
  "reopened = [Open ''u1'', Ack 0, Open ''u1'', Ack 1]"

text \<open>
  A connected service of user \<open>u1\<close> with one error listener; servers that answer the
  existence check with 404 and with no response; listeners that do nothing.
\<close>

definition connected_service :: "nat service" where
  "connected_service = addListener ''error'' 7 (connect_ack 0 (initialize ''u1'' initial))"

definition room_deleted :: "int \<Rightarrow> unit http" where
  "room_deleted room = Rejected (Some 404)"

definition room_timeout :: "int \<Rightarrow> unit http" where
  "room_timeout room = Rejected None"

definition no_bodies :: "lid \<Rightarrow> call list" where
  "no_bodies l = []"

text \<open>A service that was never initialized, with two error listeners.\<close>

definition idle_service :: "nat service" where
  "idle_service = addListener ''error'' 4 (addListener ''error'' 3 initial)"

text \<open>Files of 10 MiB, of one byte more, and a small one; a server that stores every file.\<close>

definition at_limit :: File where
  "at_limit = \<lparr>file_name = ''limit.png'', file_size = 10 * 1024 * 1024\<rparr>"

definition oversized :: File where
  "oversized = \<lparr>file_name = ''big.png'', file_size = 10 * 1024 * 1024 + 1\<rparr>"

definition small :: File where
  "small = \<lparr>file_name = ''small.png'', file_size = 3\<rparr>"

definition storing :: "File \<Rightarrow> int \<Rightarrow> string http" where
  "storing f room = Resolved (''/img/'' @ file_name f)"

text \<open>A page whose chat service has two error listeners.\<close>

definition listening_page :: "nat page" where
  "listening_page = \<lparr>webSocketService = idle_service, upload_requests = []\<rparr>"

text \<open>A bucket with three keys, listed by prefix, and a batch delete that succeeds.\<close>

definition bucket_keys :: "string list" where
  "bucket_keys = [''chat/1/a.png'', ''chat/1/b.png'', ''chat/3/c.png'']"

definition listing :: "string \<Rightarrow> string \<Rightarrow> string + string list" where
  "listing bucket p = Inr (filter (\<lambda>k. take (length p) k = p) bucket_keys)"

definition deleting :: "string \<Rightarrow> string list \<Rightarrow> string + unit" where
  "deleting bucket keys = Inr ()"

section \<open>Properties of the listener registry\<close>

lemma addListener_other:
  "e \<noteq> ev \<Longrightarrow> listeners (addListener e l s) ev = listeners s ev"
  by (simp add: addListener_def Let_def)

lemma removeListener_other:
  "e \<noteq> ev \<Longrightarrow> listeners (removeListener e l s) ev = listeners s ev"
  by (simp add: removeListener_def Let_def split: option.splits)

lemma addListener_frame:
  "invoked (addListener e l s) = invoked s" "published (addListener e l s) = published s"
  "client (addListener e l s) = client s" "heap (addListener e l s) = heap s"
  "userId (addListener e l s) = userId s" "requested (addListener e l s) = requested s"
  by (simp_all add: addListener_def Let_def)

lemma removeListener_frame:
  "invoked (removeListener e l s) = invoked s" "published (removeListener e l s) = published s"
  "client (removeListener e l s) = client s" "heap (removeListener e l s) = heap s"
  "userId (removeListener e l s) = userId s" "requested (removeListener e l s) = requested s"
  by (simp_all add: removeListener_def Let_def split: option.splits)

lemma run_body_frame:
  "invoked (run_body cs s) = invoked s" "published (run_body cs s) = published s"
  "client (run_body cs s) = client s" "heap (run_body cs s) = heap s"
  "userId (run_body cs s) = userId s" "requested (run_body cs s) = requested s"
  by (induction cs s rule: run_body.induct) (simp_all add: addListener_frame removeListener_frame)

lemma run_body_quiet:
  "quiet ev cs \<Longrightarrow> listeners (run_body cs s) ev = listeners s ev"
  by (induction cs s rule: run_body.induct) (simp_all add: addListener_other removeListener_other)

lemma invoke_quiet:
  "quiet ev (B l) \<Longrightarrow> listeners (invoke B ev l d s) ev = listeners s ev"
  by (simp add: invoke_def run_body_quiet)

lemma invoke_invoked:
  "invoked (invoke B ev l d s) = invoked s @ [(ev, l, d)]"
  by (simp add: invoke_def run_body_frame)

lemma invoke_frame:
  "published (invoke B ev l d s) = published s"
  "client (invoke B ev l d s) = client s" "heap (invoke B ev l d s) = heap s"
  "userId (invoke B ev l d s) = userId s" "requested (invoke B ev l d s) = requested s"
  by (simp_all add: invoke_def run_body_frame)

lemma forEach_frame:
  "published (forEach B ev d k len s) = published s \<and>
   client (forEach B ev d k len s) = client s \<and> heap (forEach B ev d k len s) = heap s \<and>
   userId (forEach B ev d k len s) = userId s \<and> requested (forEach B ev d k len s) = requested s"
proof (induction B ev d k len s rule: forEach.induct)
  case (1 B ev d k len s)
  show ?case
  proof (cases "k < len")
    case False
    then show ?thesis by (simp add: forEach.simps [of B ev d k len s])
  next
    case True
    show ?thesis
    proof (cases "listeners s ev")
      case None
      with True 1(1) show ?thesis by (simp add: forEach.simps [of B ev d k len s])
    next
      case (Some ls)
      show ?thesis
      proof (cases "k < length ls")
        case inside: True
        with True Some 1(2) [OF True Some inside] show ?thesis
          by (simp add: forEach.simps [of B ev d k len s] invoke_frame)
      next
        case outside: False
        with True Some 1(3) [OF True Some outside] show ?thesis
          by (simp add: forEach.simps [of B ev d k len s])
      qed
    qed
  qed
qed

lemma forEach_stable:
  "listeners s ev = Some xs \<Longrightarrow>
   (\<And>j. k \<le> j \<Longrightarrow> j < len \<Longrightarrow> j < length xs \<Longrightarrow> quiet ev (B (xs ! j))) \<Longrightarrow>
   listeners (forEach B ev d k len s) ev = Some xs \<and>
   invoked (forEach B ev d k len s) = invoked s @ map (\<lambda>l. (ev, l, d)) (drop k (take len xs))"
proof (induction B ev d k len s rule: forEach.induct)
  case (1 B ev d k len s)
  show ?case
  proof (cases "k < len")
    case False
    then show ?thesis using 1(4) by (simp add: forEach.simps [of B ev d k len s])
  next
    case True
    show ?thesis
    proof (cases "k < length xs")
      case inside: True
      let ?s' = "invoke B ev (xs ! k) d s"
      have q: "quiet ev (B (xs ! k))" using 1(5) [of k] True inside by simp
      have l': "listeners ?s' ev = Some xs" using q 1(4) by (simp add: invoke_quiet)
      have ih: "listeners (forEach B ev d (Suc k) len ?s') ev = Some xs \<and>
         invoked (forEach B ev d (Suc k) len ?s') =
           invoked ?s' @ map (\<lambda>l. (ev, l, d)) (drop (Suc k) (take len xs))"
        using 1(2) [OF True 1(4) inside l'] 1(5) by simp
      have "drop k (take len xs) = xs ! k # drop (Suc k) (take len xs)"
        using True inside by (simp add: Cons_nth_drop_Suc [symmetric])
      with ih True inside 1(4) show ?thesis
        by (simp add: forEach.simps [of B ev d k len s] invoke_invoked)
    next
      case outside: False
      have ih: "listeners (forEach B ev d (Suc k) len s) ev = Some xs \<and>
         invoked (forEach B ev d (Suc k) len s) =
           invoked s @ map (\<lambda>l. (ev, l, d)) (drop (Suc k) (take len xs))"
        using 1(3) [OF True 1(4) outside 1(4)] 1(5) by simp
      with True outside 1(4) show ?thesis
        by (simp add: forEach.simps [of B ev d k len s])
    qed
  qed
qed

lemma indexOf_nth:
  "distinct xs \<Longrightarrow> i < length xs \<Longrightarrow> indexOf xs (xs ! i) = int i"
proof (induction xs arbitrary: i)
  case Nil
  then show ?case by simp
next
  case (Cons x xs)
  show ?case
  proof (cases i)
    case 0
    then show ?thesis by simp
  next
    case (Suc j)
    with Cons show ?thesis by (auto simp: Let_def)
  qed
qed

lemma removeListener_self:
  "listeners s ev = Some ls \<Longrightarrow> distinct ls \<Longrightarrow> i < length ls \<Longrightarrow>
   listeners (removeListener ev (ls ! i) s) ev = Some (splice1 ls i)"
  by (simp add: removeListener_def Let_def indexOf_nth)

lemma splice1_nth:
  "j < length xs - 1 \<Longrightarrow> splice1 xs i ! j = (if j < i then xs ! j else xs ! Suc j)"
  by (auto simp: splice1_def nth_append min_def)

lemma length_splice1: "i < length xs \<Longrightarrow> length (splice1 xs i) = length xs - 1"
  by (simp add: splice1_def)

lemma self_removal_pass:
  assumes ls: "listeners s ev = Some ls" and d: "distinct ls" and i: "i < length ls"
    and ki: "k \<le> i"
    and self: "B (ls ! i) = [RemoveListener ev (ls ! i)]"
    and others: "\<And>j. j < length ls \<Longrightarrow> j \<noteq> i \<Longrightarrow> quiet ev (B (ls ! j))"
  shows "listeners (forEach B ev d0 k (length ls) s) ev = Some (splice1 ls i) \<and>
     invoked (forEach B ev d0 k (length ls) s) =
       invoked s @ map (\<lambda>l. (ev, l, d0)) (drop k (take (Suc i) ls) @ drop (Suc (Suc i)) ls)"
  using ls ki
proof (induction "i - k" arbitrary: k s)
  case 0
  then have k: "k = i" by simp
  let ?s' = "invoke B ev (ls ! i) d0 s"
  have l': "listeners ?s' ev = Some (splice1 ls i)"
    using removeListener_self [of "s\<lparr>invoked := invoked s @ [(ev, ls ! i, d0)]\<rparr>" ev ls i] 0(2) d i
    by (simp add: invoke_def self)
  have inv': "invoked ?s' = invoked s @ [(ev, ls ! i, d0)]" by (simp add: invoke_invoked)
  have q: "\<And>j. Suc i \<le> j \<Longrightarrow> j < length ls \<Longrightarrow> j < length (splice1 ls i) \<Longrightarrow>
      quiet ev (B (splice1 ls i ! j))"
  proof -
    fix j assume a: "Suc i \<le> j" "j < length ls" "j < length (splice1 ls i)"
    then have sj: "Suc j < length ls" using i by (simp add: length_splice1)
    then have "j < length ls - 1" by simp
    then have "splice1 ls i ! j = ls ! Suc j" using a(1) by (simp add: splice1_nth)
    moreover note sj
    ultimately show "quiet ev (B (splice1 ls i ! j))" using others [of "Suc j"] a by simp
  qed
  have st: "listeners (forEach B ev d0 (Suc i) (length ls) ?s') ev = Some (splice1 ls i) \<and>
     invoked (forEach B ev d0 (Suc i) (length ls) ?s') =
       invoked ?s' @ map (\<lambda>l. (ev, l, d0)) (drop (Suc i) (take (length ls) (splice1 ls i)))"
    using forEach_stable [OF l', of "Suc i" "length ls" B d0] q by blast
  have dr: "drop (Suc i) (take (length ls) (splice1 ls i)) = drop (Suc (Suc i)) ls"
    using i by (simp add: splice1_def min_def)
  have tk: "drop i (take (Suc i) ls) = [ls ! i]"
    using i by (simp add: take_Suc_conv_app_nth)
  show ?case using st 0(2) i k dr tk inv'
    by (simp add: forEach.simps [of B ev d0 i "length ls" s])
next
  case (Suc n)
  then have lt: "k < i" by simp
  then have kl: "k < length ls" using i by simp
  let ?s' = "invoke B ev (ls ! k) d0 s"
  have q: "quiet ev (B (ls ! k))" using others [of k] lt kl by simp
  have l': "listeners ?s' ev = Some ls" using q Suc(3) by (simp add: invoke_quiet)
  have ih: "listeners (forEach B ev d0 (Suc k) (length ls) ?s') ev = Some (splice1 ls i) \<and>
     invoked (forEach B ev d0 (Suc k) (length ls) ?s') =
       invoked ?s' @ map (\<lambda>l. (ev, l, d0)) (drop (Suc k) (take (Suc i) ls) @ drop (Suc (Suc i)) ls)"
    using Suc(1) [of "Suc k" ?s'] Suc(2) l' lt by simp
  have "drop k (take (Suc i) ls) = ls ! k # drop (Suc k) (take (Suc i) ls)"
    using lt kl by (simp add: Cons_nth_drop_Suc [symmetric])
  with ih kl Suc(3) show ?case
    by (simp add: forEach.simps [of B ev d0 k "length ls" s] invoke_invoked)
qed

lemma notify_quiet:
  assumes "listeners s ev = Some ls" and "\<forall>l\<in>set ls. quiet ev (B l)"
  shows "listeners (notifyListeners B ev d s) ev = Some ls \<and>
    invoked (notifyListeners B ev d s) = invoked s @ map (\<lambda>l. (ev, l, d)) ls"
proof (cases ls)
  case Nil
  with assms show ?thesis by (simp add: notifyListeners_def)
next
  case (Cons x xs)
  have "listeners (forEach B ev d 0 (length ls) s) ev = Some ls \<and>
    invoked (forEach B ev d 0 (length ls) s) =
      invoked s @ map (\<lambda>l. (ev, l, d)) (drop 0 (take (length ls) ls))"
    using forEach_stable [OF assms(1), of 0 "length ls" B d] assms(2) by simp
  with assms(1) Cons show ?thesis by (simp add: notifyListeners_def)
qed


text \<open>
  C1 (as amended). A dispatch pass reads the live array of the event, by index, with the
  length taken at the start. When a listener that is registered once removes itself
  during its own invocation and the other listeners leave the array of that event alone,
  the listener is gone from the registry after the pass and has been invoked once, every
  listener registered before it has been invoked once, in the order of registration, and
  of the listeners registered after it the first is skipped and the others are invoked
  once, in order.
\<close>

theorem notifyListeners_self_removal:
  assumes "listeners s ev = Some ls" and "distinct ls" and "i < length ls"
    and "B (ls ! i) = [RemoveListener ev (ls ! i)]"
    and "\<forall>l\<in>set ls. l \<noteq> ls ! i \<longrightarrow> quiet ev (B l)"
  shows "listeners (notifyListeners B ev d s) ev = Some (splice1 ls i) \<and>
    invoked (notifyListeners B ev d s) =
      invoked s @ map (\<lambda>l. (ev, l, d)) (take (Suc i) ls @ drop (Suc (Suc i)) ls)"
proof -
  have others: "\<And>j. j < length ls \<Longrightarrow> j \<noteq> i \<Longrightarrow> quiet ev (B (ls ! j))"
  proof -
    fix j assume j: "j < length ls" "j \<noteq> i"
    then have "ls ! j \<noteq> ls ! i" using assms(2,3) by (simp add: nth_eq_iff_index_eq)
    then show "quiet ev (B (ls ! j))" using assms(5) j by simp
  qed
  have "listeners (forEach B ev d 0 (length ls) s) ev = Some (splice1 ls i) \<and>
     invoked (forEach B ev d 0 (length ls) s) =
       invoked s @ map (\<lambda>l. (ev, l, d)) (drop 0 (take (Suc i) ls) @ drop (Suc (Suc i)) ls)"
    using self_removal_pass [of s ev ls i 0 B d] assms(1,2,3,4) others by simp
  moreover have "length ls > 0" using assms(3) by (cases ls) simp_all
  ultimately show ?thesis using assms(1) by (simp add: notifyListeners_def)
qed

theorem notifyListeners_self_removal_witness:
  "listeners (notifyListeners (self_remover ''message'' 1) ''message'' (Received ''hi'') three_listeners)
      ''message'' = Some [0, 2] \<and>
   invoked (notifyListeners (self_remover ''message'' 1) ''message'' (Received ''hi'') three_listeners) =
     [(''message'', 0, Received ''hi''), (''message'', 1, Received ''hi'')]"
proof -
  have l: "listeners three_listeners ''message'' = Some [0, 1, 2]"
    by (simp add: three_listeners_def addListener_def initial_def)
  have i: "invoked three_listeners = []"
    by (simp add: three_listeners_def addListener_def initial_def)
  show ?thesis
    using notifyListeners_self_removal [of three_listeners "''message''" "[0, 1, 2]" 1
        "self_remover ''message'' 1" "Received ''hi''"] l i
    by (simp add: self_remover_def splice1_def)
qed


text \<open>
  C1 as stated fails: with listeners 0 and 1 registered for \<open>error\<close>, in that order, and
  listener 0 removing itself when called, the pass invokes listener 0 only. Listener 1 is
  registered before and after the pass and is not invoked.
\<close>

theorem notifyListeners_skips_next_listener:
  "listeners two_listeners ''error'' = Some [0, 1] \<and>
   listeners (notifyListeners (self_remover ''error'' 0) ''error'' (Received ''x'') two_listeners)
      ''error'' = Some [1] \<and>
   invoked (notifyListeners (self_remover ''error'' 0) ''error'' (Received ''x'') two_listeners) =
     [(''error'', 0, Received ''x'')]"
  by (simp add: two_listeners_def addListener_def initial_def notifyListeners_def forEach.simps
      invoke_def self_remover_def removeListener_def splice1_def)

section \<open>Properties of the session lifecycle\<close>

lemma in_activated_clients: "c \<in> set (activated_clients s) \<longleftrightarrow> c < length (heap s) \<and> activated (heap s ! c)"
  by (auto simp: activated_clients_def)

lemma distinct_activated_clients: "distinct (activated_clients s)"
  by (simp add: activated_clients_def)

lemma sole_owner_at_most_one:
  assumes "sole_owner s"
  shows "length (activated_clients s) \<le> 1"
proof (cases "client s")
  case None
  with assms have "set (activated_clients s) = {}" by (auto simp: sole_owner_def)
  then show ?thesis by simp
next
  case (Some c)
  with assms have "set (activated_clients s) \<subseteq> {c}" by (auto simp: sole_owner_def)
  then have "card (set (activated_clients s)) \<le> card {c}" by (intro card_mono) simp_all
  then show ?thesis using distinct_card [OF distinct_activated_clients, of s] by simp
qed

lemma sole_owner_initial: "sole_owner initial"
  by (simp add: sole_owner_def initial_def activated_clients_def)

lemma activated_clients_append_new:
  "activated_clients (s\<lparr>client := x, heap := activate (length h) (h @ [new_client])\<rparr>) =
   filter (\<lambda>c. activated (h ! c)) [0..<length h] @ [length h]"
proof -
  have "filter (\<lambda>c. activated (activate (length h) (h @ [new_client]) ! c)) [0..<length h] =
      filter (\<lambda>c. activated (h ! c)) [0..<length h]"
    by (rule filter_cong [OF refl]) (simp add: activate_def nth_append)
  then show ?thesis by (simp add: activated_clients_def activate_def new_client_def)
qed

lemma length_deactivate: "length (deactivate c h) = length h"
  by (simp add: deactivate_def)

lemma isConnected_userId: "isConnected (s\<lparr>userId := u\<rparr>) = isConnected s"
  by (simp add: isConnected_def split: option.splits)

lemma initialize_unconnected:
  "\<not> isConnected s \<Longrightarrow>
   initialize uid s = s\<lparr>userId := Some uid, client := Some (length (heap s)),
     heap := activate (length (heap s)) (heap s @ [new_client])\<rparr>"
  by (simp add: initialize_def isConnected_userId Let_def)

lemma initialize_connected:
  "isConnected s \<Longrightarrow> client s = Some c \<Longrightarrow>
   initialize uid s = s\<lparr>userId := Some uid, client := Some (length (heap s)),
     heap := activate (length (heap s)) (deactivate c (heap s) @ [new_client])\<rparr>"
  by (simp add: initialize_def isConnected_userId disconnect_def length_deactivate Let_def)

lemma initialize_settled:
  assumes "sole_owner s" and "client s = None \<or> isConnected s"
  shows "activated_clients (initialize uid s) = [length (heap s)] \<and> sole_owner (initialize uid s)"
proof (cases "isConnected s")
  case False
  with assms(2) have none: "client s = None" by simp
  with assms(1) have "set (activated_clients s) = {}" by (auto simp: sole_owner_def)
  then have empty: "filter (\<lambda>c. activated (heap s ! c)) [0..<length (heap s)] = []"
    by (simp add: activated_clients_def)
  have l: "activated_clients (initialize uid s) = [length (heap s)]"
    using activated_clients_append_new [where s = s and x = "Some (length (heap s))" and h = "heap s"] empty
    by (simp add: initialize_unconnected [OF False] activated_clients_def)
  then show ?thesis
    by (simp add: sole_owner_def initialize_unconnected [OF False] activate_def)
next
  case True
  then obtain c where c: "client s = Some c" "c < length (heap s)"
    by (auto simp: isConnected_def split: option.splits)
  have "\<And>x. x < length (heap s) \<Longrightarrow> activated (deactivate c (heap s) ! x) \<Longrightarrow> False"
  proof -
    fix x assume x: "x < length (heap s)" "activated (deactivate c (heap s) ! x)"
    then have "x \<noteq> c" using c by (auto simp: deactivate_def)
    then have "activated (heap s ! x)" using x c by (simp add: deactivate_def)
    then have "x \<in> set (activated_clients s)" using x by (simp add: in_activated_clients)
    then show False using assms(1) c \<open>x \<noteq> c\<close> by (auto simp: sole_owner_def)
  qed
  then have empty: "filter (\<lambda>x. activated (deactivate c (heap s) ! x)) [0..<length (heap s)] = []"
    by (auto simp: filter_empty_conv)
  note len = length_deactivate [of c "heap s"]
  have l: "activated_clients (initialize uid s) = [length (heap s)]"
    using activated_clients_append_new [where s = s and x = "Some (length (heap s))" and h = "deactivate c (heap s)"] empty len
    by (simp add: initialize_connected [OF True c(1)] activated_clients_def)
  then show ?thesis
    by (simp add: sole_owner_def initialize_connected [OF True c(1)] activate_def len)
qed

lemma initialize_deactivates:
  assumes "isConnected s" and "client s = Some c"
  shows "\<not> activated (heap (initialize uid s) ! c)"
proof -
  have c: "c < length (heap s)" using assms by (simp add: isConnected_def)
  then show ?thesis
    by (simp add: initialize_connected [OF assms] activate_def deactivate_def nth_append)
qed

lemma sole_owner_disconnect: "sole_owner s \<Longrightarrow> sole_owner (disconnect s)"
proof (cases "client s")
  case None
  assume "sole_owner s"
  with None show ?thesis by (simp add: disconnect_def)
next
  case (Some c)
  assume a: "sole_owner s"
  have "\<And>x. x \<in> set (activated_clients (disconnect s)) \<Longrightarrow> False"
  proof -
    fix x assume "x \<in> set (activated_clients (disconnect s))"
    then have x: "x < length (heap s)" "activated (deactivate c (heap s) ! x)"
      using Some by (simp_all add: in_activated_clients disconnect_def length_deactivate)
    then have "x \<noteq> c" by (auto simp: deactivate_def)
    then have "x \<in> set (activated_clients s)" using x by (simp add: in_activated_clients deactivate_def split: if_splits)
    then show False using a Some \<open>x \<noteq> c\<close> by (auto simp: sole_owner_def)
  qed
  then have "set (activated_clients (disconnect s)) \<subseteq> {}" by blast
  then have "set (activated_clients (disconnect s)) = {}" by simp
  then show ?thesis using Some by (simp add: sole_owner_def disconnect_def)
qed

lemma sole_owner_connect_ack: "sole_owner s \<Longrightarrow> sole_owner (connect_ack c s)"
  by (auto simp: sole_owner_def connect_ack_def in_activated_clients Ball_def nth_list_update split: option.splits if_splits)

lemma sole_owner_connection_lost: "sole_owner s \<Longrightarrow> sole_owner (connection_lost c s)"
  by (auto simp: sole_owner_def connection_lost_def in_activated_clients Ball_def nth_list_update split: option.splits if_splits)

lemma sole_owner_run:
  "sole_owner s \<Longrightarrow> settled xs s \<Longrightarrow> sole_owner (run (take n xs) s)"
proof (induction xs arbitrary: s n)
  case Nil
  then show ?case by simp
next
  case (Cons x xs)
  show ?case
  proof (cases n)
    case 0
    with Cons.prems show ?thesis by simp
  next
    case (Suc m)
    have step: "sole_owner (exec x s) \<and> settled xs (exec x s)"
    proof (cases x)
      case (Open uid)
      with Cons.prems show ?thesis using initialize_settled [of s uid] by simp
    next
      case Close
      with Cons.prems show ?thesis by (simp add: sole_owner_disconnect)
    next
      case (Ack c)
      with Cons.prems show ?thesis by (simp add: sole_owner_connect_ack)
    next
      case (Lost c)
      with Cons.prems show ?thesis by (simp add: sole_owner_connection_lost)
    qed
    with Suc Cons.IH [of "exec x s" m] show ?thesis by simp
  qed
qed

lemma initialize_connected_clients:
  assumes "isConnected s" and "client s = Some c"
  shows "activated_clients (initialize uid s) =
    filter (\<lambda>x. x \<noteq> c) (activated_clients s) @ [length (heap s)]"
proof -
  have c: "c < length (heap s)" using assms by (simp add: isConnected_def)
  have "filter (\<lambda>x. activated (deactivate c (heap s) ! x)) [0..<length (heap s)] =
      filter (\<lambda>x. activated (heap s ! x) \<and> x \<noteq> c) [0..<length (heap s)]"
    by (rule filter_cong [OF refl]) (auto simp: deactivate_def c nth_list_update)
  then have "filter (\<lambda>x. activated (deactivate c (heap s) ! x)) [0..<length (heap s)] =
      filter (\<lambda>x. x \<noteq> c) (activated_clients s)"
    by (simp add: activated_clients_def)
  then show ?thesis
    using activated_clients_append_new [where s = s and x = "Some (length (heap s))"
        and h = "deactivate c (heap s)"] length_deactivate [of c "heap s"]
    by (simp add: initialize_connected [OF assms] activated_clients_def)
qed

lemma initialize_leaves_connection:
  assumes "isConnected s" and "client s = Some c"
  shows "connected (heap (initialize uid s) ! c)"
proof -
  have c: "c < length (heap s)" "connected (heap s ! c)" using assms by (simp_all add: isConnected_def)
  then show ?thesis
    by (simp add: initialize_connected [OF assms] activate_def deactivate_def nth_append)
qed

lemma initialize_new_client:
  "client (initialize uid s) = Some (length (heap s))"
  by (simp add: initialize_def Let_def disconnect_def length_deactivate isConnected_userId
      split: option.splits)

text \<open>
  C2 (as amended). \<open>initialize\<close> starts the teardown of the existing session only when
  that session is connected. In every state, when \<open>initialize\<close> is called while the
  client of the service is connected, \<open>deactivate()\<close> is called on that client before
  the new client is constructed: when the call returns the old client is no longer
  activated (it is still connected, since its deactivation is not awaited), the service
  holds the new client, and the activated clients are those that were activated before,
  without the old client, followed by the new one. In every history that starts from a
  fresh service and in which each \<open>initialize\<close> finds the service without a client or
  with a connected one, at most one client is activated at any instant, and an
  \<open>initialize\<close> called on a connected service leaves the new client as the only
  activated one.
\<close>

theorem initialize_replaces_connected_session:
  "(\<forall>c. isConnected (s :: 'p service) \<and> client s = Some c \<longrightarrow>
       \<not> activated (heap (initialize uid s) ! c) \<and>
       connected (heap (initialize uid s) ! c) \<and>
       client (initialize uid s) = Some (length (heap s)) \<and>
       activated_clients (initialize uid s) =
         filter (\<lambda>x. x \<noteq> c) (activated_clients s) @ [length (heap s)]) \<and>
   (settled steps (initial :: 'p service) \<longrightarrow>
       length (activated_clients (run (take n steps) (initial :: 'p service))) \<le> 1 \<and>
       (isConnected (run (take n steps) (initial :: 'p service)) \<longrightarrow>
          activated_clients (initialize uid (run (take n steps) (initial :: 'p service))) =
            [length (heap (run (take n steps) (initial :: 'p service)))]))"
proof -
  have step: "\<not> activated (heap (initialize uid s) ! c) \<and>
       connected (heap (initialize uid s) ! c) \<and>
       client (initialize uid s) = Some (length (heap s)) \<and>
       activated_clients (initialize uid s) =
         filter (\<lambda>x. x \<noteq> c) (activated_clients s) @ [length (heap s)]"
    if "isConnected s" and "client s = Some c" for c
    using that initialize_deactivates [of s c uid] initialize_leaves_connection [of s c uid]
      initialize_connected_clients [of s c uid]
    by (simp add: initialize_new_client)
  have history: "length (activated_clients (run (take n steps) (initial :: 'p service))) \<le> 1 \<and>
       (isConnected (run (take n steps) (initial :: 'p service)) \<longrightarrow>
          activated_clients (initialize uid (run (take n steps) (initial :: 'p service))) =
            [length (heap (run (take n steps) (initial :: 'p service)))])"
    if st: "settled steps (initial :: 'p service)"
  proof -
    have so: "sole_owner (run (take n steps) (initial :: 'p service))"
      using sole_owner_run [OF sole_owner_initial st] by simp
    then show ?thesis
      using sole_owner_at_most_one [OF so] initialize_settled [OF so, of uid] by simp
  qed
  show ?thesis using step history by blast
qed

lemma after_first_ack:
  "run (take 2 reopened) (initial :: nat service) =
     \<lparr>client = Some 0, listeners = [''message'' \<mapsto> [], ''error'' \<mapsto> []], userId = Some ''u1'',
      heap = [\<lparr>activated = True, connected = True\<rparr>], published = [], requested = [], invoked = []\<rparr>"
  by (simp add: reopened_def numeral_2_eq_2 initialize_def isConnected_def initial_def Let_def
      activate_def new_client_def connect_ack_def)

theorem initialize_replaces_connected_session_witness:
  "isConnected (run (take 2 reopened) (initial :: nat service)) \<and>
   client (run (take 2 reopened) (initial :: nat service)) = Some 0 \<and>
   settled reopened (initial :: nat service) \<and>
   \<not> activated (heap (initialize ''u1'' (run (take 2 reopened) (initial :: nat service))) ! 0) \<and>
   connected (heap (initialize ''u1'' (run (take 2 reopened) (initial :: nat service))) ! 0) \<and>
   client (initialize ''u1'' (run (take 2 reopened) (initial :: nat service))) = Some 1 \<and>
   activated_clients (initialize ''u1'' (run (take 2 reopened) (initial :: nat service))) = [1] \<and>
   length (activated_clients (run (take 2 reopened) (initial :: nat service))) \<le> 1"
proof -
  have s: "settled reopened (initial :: nat service)"
    by (simp add: reopened_def initialize_def isConnected_def initial_def Let_def
      activate_def deactivate_def disconnect_def new_client_def connect_ack_def)
  have c: "isConnected (run (take 2 reopened) (initial :: nat service))"
    by (simp add: after_first_ack isConnected_def)
  have k: "client (run (take 2 reopened) (initial :: nat service)) = Some 0"
    by (simp add: after_first_ack)
  have h: "length (heap (run (take 2 reopened) (initial :: nat service))) = 1"
    by (simp add: after_first_ack)
  note th = initialize_replaces_connected_session [where s = "run (take 2 reopened) initial"
      and steps = reopened and n = 2 and uid = "''u1''"]
  have p: "\<not> activated (heap (initialize ''u1'' (run (take 2 reopened) (initial :: nat service))) ! 0) \<and>
      connected (heap (initialize ''u1'' (run (take 2 reopened) (initial :: nat service))) ! 0) \<and>
      client (initialize ''u1'' (run (take 2 reopened) (initial :: nat service))) =
        Some (length (heap (run (take 2 reopened) (initial :: nat service))))"
    using th c k by blast
  have q: "length (activated_clients (run (take 2 reopened) (initial :: nat service))) \<le> 1 \<and>
      activated_clients (initialize ''u1'' (run (take 2 reopened) (initial :: nat service))) =
        [length (heap (run (take 2 reopened) (initial :: nat service)))]"
    using th s c by blast
  show ?thesis using p q s c k h by simp
qed

text \<open>
  C2 as stated fails: two calls of \<open>initialize\<close> for the same user with no
  acknowledgement of the connection in between leave two sessions that are activated and
  were never told to close. The first client is activated and not connected, so the guard
  of line 32 is false and \<open>deactivate()\<close> is never called on it.
\<close>

theorem initialize_keeps_unconnected_session:
  "activated_clients (initialize ''u1'' (initialize ''u1'' (initial :: nat service))) = [0, 1] \<and>
   client (initialize ''u1'' (initialize ''u1'' (initial :: nat service))) = Some 1"
  by (simp add: initialize_def isConnected_def initial_def Let_def activated_clients_def
      activate_def new_client_def nth_append)

section \<open>Properties of the send pipeline\<close>

lemma notifyListeners_frame:
  "published (notifyListeners B ev d s) = published s"
  "client (notifyListeners B ev d s) = client s"
  "heap (notifyListeners B ev d s) = heap s"
  "userId (notifyListeners B ev d s) = userId s"
  "requested (notifyListeners B ev d s) = requested s"
  by (simp_all add: notifyListeners_def forEach_frame split: option.splits)

lemma publish_connected:
  "isConnected s \<Longrightarrow> \<exists>c. client s = Some c \<and>
     publish m s = (Inr m, s\<lparr>published := published s @
       [\<lparr>via = c, destination = ''/app/chat.sendMessage'', body = m,
         content_type = ''application/json''\<rparr>]\<rparr>)"
  by (auto simp: isConnected_def publish_def split: option.splits)

lemma messagePayload_requested:
  "messagePayload room content sender ps (s\<lparr>requested := r\<rparr>) =
   messagePayload room content sender ps s"
  by (simp add: messagePayload_def)

lemma isConnected_requested: "isConnected (s\<lparr>requested := r\<rparr>) = isConnected s"
  by (simp add: isConnected_def split: option.splits)

text \<open>
  C3. With a connected client: when the existence check is rejected with status 404, the
  call is rejected with that error, \<open>notifyListeners\<close> is called for \<open>error\<close> with the
  object of code \<open>CHAT_ROOM_DELETED\<close> (which reaches every registered error listener,
  in order, when the listeners leave the error list alone), and nothing is published;
  when the check is rejected in any other way, the call returns the payload and has
  published exactly that payload to \<open>/app/chat.sendMessage\<close>.
\<close>

theorem send_gated_by_404_only:
  assumes "isConnected s"
  shows "(api room = Rejected (Some 404) \<longrightarrow>
      sendMessageWithPhotos B api room content sender ps s =
        (Inl (CheckRejected (Some 404)),
         notifyListeners B ''error'' chat_room_deleted (s\<lparr>requested := requested s @ [room]\<rparr>)) \<and>
      published (snd (sendMessageWithPhotos B api room content sender ps s)) = published s \<and>
      (\<forall>ls. listeners s ''error'' = Some ls \<and> (\<forall>l\<in>set ls. quiet ''error'' (B l)) \<longrightarrow>
         invoked (snd (sendMessageWithPhotos B api room content sender ps s)) =
           invoked s @ map (\<lambda>l. (''error'', l, chat_room_deleted)) ls)) \<and>
    (\<forall>status. api room = Rejected status \<and> status \<noteq> Some 404 \<longrightarrow>
      (\<exists>c. client s = Some c \<and>
         fst (sendMessageWithPhotos B api room content sender ps s) =
           Inr (messagePayload room content sender ps s) \<and>
         published (snd (sendMessageWithPhotos B api room content sender ps s)) =
           published s @ [\<lparr>via = c, destination = ''/app/chat.sendMessage'',
             body = messagePayload room content sender ps s,
             content_type = ''application/json''\<rparr>] \<and>
         invoked (snd (sendMessageWithPhotos B api room content sender ps s)) = invoked s))"
proof -
  let ?s1 = "s\<lparr>requested := requested s @ [room]\<rparr>"
  have deleted: "sendMessageWithPhotos B api room content sender ps s =
      (Inl (CheckRejected (Some 404)), notifyListeners B ''error'' chat_room_deleted ?s1)"
    if "api room = Rejected (Some 404)"
    using assms that by (simp add: sendMessageWithPhotos_def)
  have unpublished: "published (notifyListeners B ''error'' chat_room_deleted ?s1) = published s"
    by (simp add: notifyListeners_frame)
  have delivered: "invoked (notifyListeners B ''error'' chat_room_deleted ?s1) =
      invoked s @ map (\<lambda>l. (''error'', l, chat_room_deleted)) ls"
    if "listeners s ''error'' = Some ls" and "\<forall>l\<in>set ls. quiet ''error'' (B l)" for ls
    using notify_quiet [of ?s1 "''error''" ls B chat_room_deleted] that by simp
  have other: "sendMessageWithPhotos B api room content sender ps s =
      publish (messagePayload room content sender ps ?s1) ?s1"
    if "api room = Rejected status" and "status \<noteq> Some 404" for status
    using assms that by (simp add: sendMessageWithPhotos_def Let_def)
  have "isConnected ?s1" using assms by (simp add: isConnected_requested)
  from publish_connected [OF this, of "messagePayload room content sender ps ?s1"]
  obtain c where c: "client s = Some c"
    "publish (messagePayload room content sender ps ?s1) ?s1 =
       (Inr (messagePayload room content sender ps ?s1),
        ?s1\<lparr>published := published ?s1 @
          [\<lparr>via = c, destination = ''/app/chat.sendMessage'',
            body = messagePayload room content sender ps ?s1,
            content_type = ''application/json''\<rparr>]\<rparr>)"
    by auto
  show ?thesis
  proof (intro conjI impI allI)
    assume "api room = Rejected (Some 404)"
    then show "sendMessageWithPhotos B api room content sender ps s =
        (Inl (CheckRejected (Some 404)), notifyListeners B ''error'' chat_room_deleted ?s1)"
      by (rule deleted)
  next
    assume "api room = Rejected (Some 404)"
    then show "published (snd (sendMessageWithPhotos B api room content sender ps s)) = published s"
      by (simp add: deleted unpublished)
  next
    fix ls
    assume "api room = Rejected (Some 404)"
      and "listeners s ''error'' = Some ls \<and> (\<forall>l\<in>set ls. quiet ''error'' (B l))"
    then show "invoked (snd (sendMessageWithPhotos B api room content sender ps s)) =
        invoked s @ map (\<lambda>l. (''error'', l, chat_room_deleted)) ls"
      by (simp add: deleted delivered)
  next
    fix status
    assume "api room = Rejected status \<and> status \<noteq> Some 404"
    then have "sendMessageWithPhotos B api room content sender ps s =
        publish (messagePayload room content sender ps ?s1) ?s1"
      using other by blast
    with c show "\<exists>c. client s = Some c \<and>
         fst (sendMessageWithPhotos B api room content sender ps s) =
           Inr (messagePayload room content sender ps s) \<and>
         published (snd (sendMessageWithPhotos B api room content sender ps s)) =
           published s @ [\<lparr>via = c, destination = ''/app/chat.sendMessage'',
             body = messagePayload room content sender ps s,
             content_type = ''application/json''\<rparr>] \<and>
         invoked (snd (sendMessageWithPhotos B api room content sender ps s)) = invoked s"
      by (simp add: messagePayload_requested)
  qed
qed

lemma connected_service_eq:
  "connected_service =
     \<lparr>client = Some 0, listeners = [''message'' \<mapsto> [], ''error'' \<mapsto> [7]], userId = Some ''u1'',
      heap = [\<lparr>activated = True, connected = True\<rparr>], published = [], requested = [], invoked = []\<rparr>"
  by (simp add: connected_service_def addListener_def initialize_def isConnected_def initial_def
      Let_def activate_def new_client_def connect_ack_def)

theorem send_gated_by_404_only_witness:
  "isConnected connected_service \<and>
   fst (sendMessageWithPhotos no_bodies room_deleted 42 ''hi'' ''CUSTOMER'' [] connected_service) =
     Inl (CheckRejected (Some 404)) \<and>
   published (snd (sendMessageWithPhotos no_bodies room_deleted 42 ''hi'' ''CUSTOMER'' []
     connected_service)) = [] \<and>
   invoked (snd (sendMessageWithPhotos no_bodies room_deleted 42 ''hi'' ''CUSTOMER'' []
     connected_service)) = [(''error'', 7, chat_room_deleted)] \<and>
   map body (published (snd (sendMessageWithPhotos no_bodies room_timeout 42 ''hi'' ''CUSTOMER'' []
     connected_service))) =
     [\<lparr>chatRoomId = 42, message = ''hi'', senderType = ''CUSTOMER'', senderId = Some ''u1'',
       photos = []\<rparr>]"
proof -
  have c: "isConnected connected_service"
    by (simp add: connected_service_eq isConnected_def)
  have l: "listeners connected_service ''error'' = Some [7]"
    by (simp add: connected_service_eq)
  have e: "invoked connected_service = []" "published connected_service = []"
    by (simp_all add: connected_service_eq)
  have t: "fst (sendMessageWithPhotos no_bodies room_timeout 42 ''hi'' ''CUSTOMER'' []
      connected_service) =
     Inr \<lparr>chatRoomId = 42, message = ''hi'', senderType = ''CUSTOMER'', senderId = Some ''u1'',
       photos = []\<rparr>"
    by (simp add: sendMessageWithPhotos_def isConnected_def room_timeout_def publish_def
        messagePayload_def connected_service_eq)
  show ?thesis
    using send_gated_by_404_only [OF c, of room_deleted 42 no_bodies "''hi''" "''CUSTOMER''" "[]"]
      send_gated_by_404_only [OF c, of room_timeout 42 no_bodies "''hi''" "''CUSTOMER''" "[]"]
      c l t e
    by (auto simp: room_deleted_def room_timeout_def no_bodies_def)
qed

section \<open>Sending without a connection, the message text, and text-only sending\<close>

lemma forEach_invoked_prefix:
  "\<exists>r. invoked (forEach B ev d k len s) = invoked s @ r"
proof (induction B ev d k len s rule: forEach.induct)
  case (1 B ev d k len s)
  show ?case
  proof (cases "k < len")
    case False
    then show ?thesis by (simp add: forEach.simps [of B ev d k len s])
  next
    case True
    show ?thesis
    proof (cases "listeners s ev")
      case None
      with True 1(1) show ?thesis by (simp add: forEach.simps [of B ev d k len s])
    next
      case (Some ls)
      show ?thesis
      proof (cases "k < length ls")
        case inside: True
        from 1(2) [OF True Some inside]
        obtain r where "invoked (forEach B ev d (Suc k) len (invoke B ev (ls ! k) d s)) =
            invoked (invoke B ev (ls ! k) d s) @ r"
          by blast
        with True Some inside show ?thesis
          by (simp add: forEach.simps [of B ev d k len s] invoke_invoked)
      next
        case outside: False
        with True Some 1(3) [OF True Some outside] show ?thesis
          by (simp add: forEach.simps [of B ev d k len s])
      qed
    qed
  qed
qed

lemma notify_first:
  assumes "listeners s ev = Some (l # ls)"
  shows "\<exists>r. invoked (notifyListeners B ev d s) = invoked s @ (ev, l, d) # r"
proof -
  obtain r where "invoked (forEach B ev d (Suc 0) (Suc (length ls)) (invoke B ev l d s)) =
      invoked (invoke B ev l d s) @ r"
    using forEach_invoked_prefix by blast
  then show ?thesis
    using assms
    by (simp add: notifyListeners_def forEach.simps [of B ev d 0 "Suc (length ls)" s]
        invoke_invoked)
qed

text \<open>
  C4 (as amended). Without a connected client (no client, or a client that is not
  connected) the call is rejected with the error \<open>WebSocket is not connected\<close>, which
  has no code of its own, after \<open>notifyListeners\<close> has been called for \<open>error\<close> with the
  object of code \<open>CONNECTION_ERROR\<close>; no existence check is requested and nothing is
  published. The object reaches the first registered error listener in every case, and
  every registered error listener, in the order of registration, when the error
  listeners leave the error list alone during the pass.
\<close>

theorem send_without_connection:
  assumes "\<not> isConnected s"
  shows "sendMessageWithPhotos B api room content sender ps s =
      (Inl NotConnected,
       notifyListeners B ''error'' (Notice ''CONNECTION_ERROR'' disconnected_text) s) \<and>
    connection_error = Notice ''CONNECTION_ERROR'' disconnected_text \<and>
    published (snd (sendMessageWithPhotos B api room content sender ps s)) = published s \<and>
    requested (snd (sendMessageWithPhotos B api room content sender ps s)) = requested s \<and>
    (\<forall>l ls. listeners s ''error'' = Some (l # ls) \<longrightarrow>
       (\<exists>r. invoked (snd (sendMessageWithPhotos B api room content sender ps s)) =
          invoked s @ (''error'', l, connection_error) # r)) \<and>
    (\<forall>ls. listeners s ''error'' = Some ls \<and> (\<forall>l\<in>set ls. quiet ''error'' (B l)) \<longrightarrow>
       invoked (snd (sendMessageWithPhotos B api room content sender ps s)) =
         invoked s @ map (\<lambda>l. (''error'', l, connection_error)) ls)"
proof -
  have r: "sendMessageWithPhotos B api room content sender ps s =
      (Inl NotConnected, notifyListeners B ''error'' connection_error s)"
    using assms by (simp add: sendMessageWithPhotos_def)
  have all: "invoked (notifyListeners B ''error'' connection_error s) =
      invoked s @ map (\<lambda>l. (''error'', l, connection_error)) ls"
    if "listeners s ''error'' = Some ls" and "\<forall>l\<in>set ls. quiet ''error'' (B l)" for ls
    using notify_quiet [of s "''error''" ls B connection_error] that by simp
  have first: "\<exists>r. invoked (notifyListeners B ''error'' connection_error s) =
      invoked s @ (''error'', l, connection_error) # r"
    if "listeners s ''error'' = Some (l # ls)" for l ls
    using notify_first [OF that] by simp
  have "sendMessageWithPhotos B api room content sender ps s =
      (Inl NotConnected,
       notifyListeners B ''error'' (Notice ''CONNECTION_ERROR'' disconnected_text) s)"
    using r by (simp add: connection_error_def)
  moreover have "connection_error = Notice ''CONNECTION_ERROR'' disconnected_text"
    by (simp add: connection_error_def)
  moreover have "published (snd (sendMessageWithPhotos B api room content sender ps s)) =
      published s"
    by (simp add: r notifyListeners_frame)
  moreover have "requested (snd (sendMessageWithPhotos B api room content sender ps s)) =
      requested s"
    by (simp add: r notifyListeners_frame)
  moreover have "\<forall>l ls. listeners s ''error'' = Some (l # ls) \<longrightarrow>
       (\<exists>r. invoked (snd (sendMessageWithPhotos B api room content sender ps s)) =
          invoked s @ (''error'', l, connection_error) # r)"
    using first by (simp add: r)
  moreover have "\<forall>ls. listeners s ''error'' = Some ls \<and> (\<forall>l\<in>set ls. quiet ''error'' (B l)) \<longrightarrow>
       invoked (snd (sendMessageWithPhotos B api room content sender ps s)) =
         invoked s @ map (\<lambda>l. (''error'', l, connection_error)) ls"
    using all by (simp add: r)
  ultimately show ?thesis by blast
qed

theorem send_without_connection_witness:
  "\<not> isConnected idle_service \<and>
   fst (sendMessageWithPhotos no_bodies room_timeout 42 ''hi'' ''CUSTOMER'' [] idle_service) =
     Inl NotConnected \<and>
   published (snd (sendMessageWithPhotos no_bodies room_timeout 42 ''hi'' ''CUSTOMER'' []
     idle_service)) = [] \<and>
   invoked (snd (sendMessageWithPhotos no_bodies room_timeout 42 ''hi'' ''CUSTOMER'' []
     idle_service)) = [(''error'', 3, connection_error), (''error'', 4, connection_error)]"
proof -
  have c: "\<not> isConnected idle_service"
    by (simp add: idle_service_def addListener_def initial_def isConnected_def)
  have l: "listeners idle_service ''error'' = Some [3, 4]"
    by (simp add: idle_service_def addListener_def initial_def)
  have e: "invoked idle_service = []" "published idle_service = []"
    by (simp_all add: idle_service_def addListener_def initial_def)
  have q: "\<forall>l\<in>set [3, 4]. quiet ''error'' (no_bodies l)"
    by (simp add: no_bodies_def)
  note th = send_without_connection [OF c, of no_bodies room_timeout 42 "''hi''" "''CUSTOMER''" "[]"]
  have a: "fst (sendMessageWithPhotos no_bodies room_timeout 42 ''hi'' ''CUSTOMER'' []
      idle_service) = Inl NotConnected"
    using th by simp
  have b: "published (snd (sendMessageWithPhotos no_bodies room_timeout 42 ''hi'' ''CUSTOMER'' []
      idle_service)) = published idle_service"
    using th by blast
  have d: "invoked (snd (sendMessageWithPhotos no_bodies room_timeout 42 ''hi'' ''CUSTOMER'' []
      idle_service)) =
      invoked idle_service @ map (\<lambda>l. (''error'', l, connection_error)) [3, 4]"
    using th l q by blast
  show ?thesis using a b c d e by simp
qed

text \<open>
  C4 as stated fails: with no client, error listeners 3 and 4 registered in that order
  and listener 3 removing itself when called, the call is rejected and listener 3
  receives the object, but listener 4, which is registered before and after the call,
  does not.
\<close>

theorem send_error_misses_later_listener:
  "\<not> isConnected idle_service \<and>
   listeners idle_service ''error'' = Some [3, 4] \<and>
   fst (sendMessageWithPhotos (self_remover ''error'' 3) room_timeout 42 ''hi'' ''CUSTOMER'' []
     idle_service) = Inl NotConnected \<and>
   invoked (snd (sendMessageWithPhotos (self_remover ''error'' 3) room_timeout 42 ''hi''
     ''CUSTOMER'' [] idle_service)) = [(''error'', 3, connection_error)] \<and>
   listeners (snd (sendMessageWithPhotos (self_remover ''error'' 3) room_timeout 42 ''hi''
     ''CUSTOMER'' [] idle_service)) ''error'' = Some [4]"
  by (simp add: idle_service_def addListener_def initial_def isConnected_def
      sendMessageWithPhotos_def notifyListeners_def forEach.simps invoke_def self_remover_def
      removeListener_def splice1_def)

text \<open>
  C6. A call that reaches the assembly (connected client, existence check not rejected
  with 404) returns and publishes one payload, whose \<open>message\<close> is the placeholder text
  when the content is empty and there is at least one photo, the empty string when the
  content is empty and there is no photo, and the content itself when it is not empty.
  The placeholder is not the empty string.
\<close>

theorem message_defaulting:
  assumes "isConnected s" and "api room \<noteq> Rejected (Some 404)"
  shows "\<exists>m. fst (sendMessageWithPhotos B api room content sender ps s) = Inr m \<and>
      map body (published (snd (sendMessageWithPhotos B api room content sender ps s))) =
        map body (published s) @ [m] \<and>
      photos m = ps \<and>
      message m = (if content = [] then (if ps = [] then [] else photo_placeholder) else content) \<and>
      photo_placeholder \<noteq> []"
proof -
  let ?s1 = "s\<lparr>requested := requested s @ [room]\<rparr>"
  let ?m = "messagePayload room content sender ps s"
  have "isConnected ?s1" using assms(1) by (simp add: isConnected_requested)
  from publish_connected [OF this, of "messagePayload room content sender ps ?s1"]
  have "fst (sendMessageWithPhotos B api room content sender ps s) = Inr ?m \<and>
      map body (published (snd (sendMessageWithPhotos B api room content sender ps s))) =
        map body (published s) @ [?m]"
    using assms
    by (auto simp: sendMessageWithPhotos_def Let_def messagePayload_requested split: http.splits)
  moreover have "photos ?m = ps \<and>
      message ?m = (if content = [] then (if ps = [] then [] else photo_placeholder) else content)"
    by (simp add: messagePayload_def)
  moreover have "photo_placeholder \<noteq> []" by (simp add: photo_placeholder_def)
  ultimately show ?thesis by blast
qed

theorem message_defaulting_witness:
  "isConnected connected_service \<and> room_timeout 42 \<noteq> Rejected (Some 404) \<and>
   map message (map body (published (snd (sendMessageWithPhotos no_bodies room_timeout 42 []
     ''ADMIN'' [5] connected_service)))) = [photo_placeholder] \<and>
   map message (map body (published (snd (sendMessageWithPhotos no_bodies room_timeout 42 []
     ''ADMIN'' [] connected_service)))) = [[]] \<and>
   map message (map body (published (snd (sendMessageWithPhotos no_bodies room_timeout 42 ''hi''
     ''ADMIN'' [5] connected_service)))) = [''hi'']"
proof -
  have c: "isConnected connected_service"
    by (simp add: connected_service_eq isConnected_def)
  have r: "room_timeout 42 \<noteq> Rejected (Some 404)"
    by (simp add: room_timeout_def)
  have e: "published connected_service = []"
    by (simp add: connected_service_eq)
  show ?thesis
    using
      message_defaulting [where s = connected_service and api = room_timeout and room = 42
        and B = no_bodies and content = "[]" and sender = "''ADMIN''" and ps = "[5]"]
      message_defaulting [where s = connected_service and api = room_timeout and room = 42
        and B = no_bodies and content = "[]" and sender = "''ADMIN''" and ps = "[]"]
      message_defaulting [where s = connected_service and api = room_timeout and room = 42
        and B = no_bodies and content = "''hi''" and sender = "''ADMIN''" and ps = "[5]"]
      c r e
    by auto
qed

text \<open>
  C10. \<open>sendMessage\<close> is \<open>sendMessageWithPhotos\<close> with the empty list of photos: the
  same result and the same state after the call, for every state, listener table and
  server. A payload it returns has no photos and carries the content as it was given,
  an empty one included.
\<close>

theorem sendMessage_is_send_without_photos:
  "sendMessage B api room content sender s =
     sendMessageWithPhotos B api room content sender [] s \<and>
   (case fst (sendMessage B api room content sender s) of
      Inl e \<Rightarrow> True
    | Inr m \<Rightarrow> photos m = [] \<and> message m = content \<and> chatRoomId m = room \<and>
        senderType m = sender \<and> senderId m = userId s)"
proof -
  have "photos m = [] \<and> message m = content \<and> chatRoomId m = room \<and>
        senderType m = sender \<and> senderId m = userId s"
    if "fst (sendMessageWithPhotos B api room content sender [] s) = Inr m" for m
    using that
    by (auto simp: sendMessageWithPhotos_def Let_def publish_def messagePayload_def
        split: if_splits http.splits option.splits)
  then show ?thesis by (simp add: sendMessage_def split: sum.splits)
qed

section \<open>Properties of the upload adapter and of the storage backend\<close>

text \<open>
  C7. \<open>uploadImage\<close> rejects with the size error exactly when the size of the file is
  greater than 10 * 1024 * 1024. At 10 * 1024 * 1024 + 1 it rejects with the size error
  and sends no request. At 10 * 1024 * 1024 it sends the request, and its result is the
  one the answer of the server decides.
\<close>

theorem uploadImage_size_ceiling:
  "(fst (uploadImage post f room sent) = Inl FileTooLarge) = (file_size f > 10 * 1024 * 1024) \<and>
   uploadImage post (f\<lparr>file_size := 10 * 1024 * 1024 + 1\<rparr>) room sent = (Inl FileTooLarge, sent) \<and>
   snd (uploadImage post (f\<lparr>file_size := 10 * 1024 * 1024\<rparr>) room sent) =
     sent @ [(f\<lparr>file_size := 10 * 1024 * 1024\<rparr>, room)] \<and>
   fst (uploadImage post (f\<lparr>file_size := 10 * 1024 * 1024\<rparr>) room sent) =
     (case post (f\<lparr>file_size := 10 * 1024 * 1024\<rparr>) room of
        Resolved url \<Rightarrow>
          Inr \<lparr>fileUrl = url, fileName = file_name f, fileSize = 10 * 1024 * 1024\<rparr>
      | Rejected status \<Rightarrow> Inl (PostRejected status))"
  by (simp add: uploadImage_def MAX_FILE_SIZE_def Let_def split: http.splits)

lemma uploadImage_result:
  "fst (uploadImage post f room sent) = fst (uploadImage post f room [])"
  by (simp add: uploadImage_def Let_def split: http.splits)

lemma uploadPromises_results:
  "fst (uploadPromises post files room sent) = map (\<lambda>f. fst (uploadImage post f room [])) files"
proof (induction files arbitrary: sent)
  case Nil
  then show ?case by simp
next
  case (Cons f fs)
  obtain r sent1 where u: "uploadImage post f room sent = (r, sent1)"
    by (cases "uploadImage post f room sent")
  obtain rs sent2 where p: "uploadPromises post fs room sent1 = (rs, sent2)"
    by (cases "uploadPromises post fs room sent1")
  have "r = fst (uploadImage post f room [])"
    using u uploadImage_result [of post f room sent] by simp
  moreover have "rs = map (\<lambda>f. fst (uploadImage post f room [])) fs"
    using p Cons.IH [of sent1] by simp
  ultimately show ?case using u p by simp
qed

lemma promise_all_fulfilled:
  "\<forall>r\<in>set rs. \<not> isl r \<Longrightarrow> promise_all rs = Inr (map projr rs)"
  by (induction rs rule: promise_all.induct) simp_all

lemma promise_all_rejected:
  "\<exists>r\<in>set rs. isl r \<Longrightarrow> isl (promise_all rs)"
  by (induction rs rule: promise_all.induct) (auto split: sum.splits)

text \<open>
  C8. When every single upload is fulfilled, \<open>uploadMultipleImages\<close> returns the results
  of the single uploads in the order of the files (so the names and sizes are those of
  the files, in order). When a single upload is rejected, the call is rejected and
  returns no list.
\<close>

theorem uploadMultipleImages_all_or_nothing:
  "((\<forall>f\<in>set files. \<not> isl (fst (uploadImage post f room []))) \<longrightarrow>
      fst (uploadMultipleImages post files room sent) =
        Inr (map (\<lambda>f. projr (fst (uploadImage post f room []))) files) \<and>
      map fileName (projr (fst (uploadMultipleImages post files room sent))) =
        map file_name files \<and>
      map fileSize (projr (fst (uploadMultipleImages post files room sent))) =
        map file_size files) \<and>
   ((\<exists>f\<in>set files. isl (fst (uploadImage post f room []))) \<longrightarrow>
      isl (fst (uploadMultipleImages post files room sent)))"
proof -
  let ?single = "\<lambda>f. fst (uploadImage post f room [])"
  have r: "fst (uploadMultipleImages post files room sent) = promise_all (map ?single files)"
    using uploadPromises_results [of post files room sent]
    by (cases "uploadPromises post files room sent") (simp add: uploadMultipleImages_def)
  have ok: "fst (uploadMultipleImages post files room sent) =
      Inr (map (\<lambda>f. projr (?single f)) files)"
    if "\<forall>f\<in>set files. \<not> isl (?single f)"
    using promise_all_fulfilled [of "map ?single files"] that by (simp add: r comp_def)
  have field: "fileName (projr (?single f)) = file_name f \<and>
      fileSize (projr (?single f)) = file_size f" if "\<not> isl (?single f)" for f
    using that by (auto simp: uploadImage_def Let_def split: if_splits http.splits)
  have names: "map fileName (map (\<lambda>f. projr (?single f)) files) = map file_name files \<and>
      map fileSize (map (\<lambda>f. projr (?single f)) files) = map file_size files"
    if "\<forall>f\<in>set files. \<not> isl (?single f)"
    using that field by (simp add: comp_def)
  have bad: "isl (fst (uploadMultipleImages post files room sent))"
    if "\<exists>f\<in>set files. isl (?single f)"
    using promise_all_rejected [of "map ?single files"] that by (simp add: r)
  show ?thesis using ok names bad by simp
qed

theorem uploadMultipleImages_all_or_nothing_witness:
  "fst (uploadMultipleImages storing [small, at_limit] 42 []) =
     Inr [\<lparr>fileUrl = ''/img/small.png'', fileName = ''small.png'', fileSize = 3\<rparr>,
          \<lparr>fileUrl = ''/img/limit.png'', fileName = ''limit.png'', fileSize = 10 * 1024 * 1024\<rparr>] \<and>
   isl (fst (uploadMultipleImages storing [small, oversized, at_limit] 42 []))"
proof -
  have s: "fst (uploadImage storing small 42 []) =
      Inr \<lparr>fileUrl = ''/img/small.png'', fileName = ''small.png'', fileSize = 3\<rparr>"
    by (simp add: uploadImage_def storing_def small_def MAX_FILE_SIZE_def)
  have l: "fst (uploadImage storing at_limit 42 []) =
      Inr \<lparr>fileUrl = ''/img/limit.png'', fileName = ''limit.png'', fileSize = 10 * 1024 * 1024\<rparr>"
    by (simp add: uploadImage_def storing_def at_limit_def MAX_FILE_SIZE_def)
  have b: "fst (uploadImage storing oversized 42 []) = Inl FileTooLarge"
    by (simp add: uploadImage_def oversized_def MAX_FILE_SIZE_def)
  show ?thesis
    using uploadMultipleImages_all_or_nothing [of "[small, at_limit]" storing 42 "[]"]
      uploadMultipleImages_all_or_nothing [of "[small, oversized, at_limit]" storing 42 "[]"]
      s l b
    by simp
qed

text \<open>
  C5 (as amended). A validation failure of the send pipeline (no connected client; an
  existence check answered with 404) is reported on both channels: the call is rejected,
  and \<open>notifyListeners\<close> is called for \<open>error\<close> with the classified object, which
  reaches every registered error listener, in the order of registration, when the error
  listeners leave the error list alone during the pass. A size rejection of
  \<open>uploadImage\<close> is reported on one channel only: the call is rejected, and the state of
  the page, the chat service and its listeners included, is as it was, so no listener
  is invoked.
\<close>

theorem validation_failure_channels:
  "(\<not> isConnected s \<longrightarrow>
      sendMessageWithPhotos B api room content sender ps s =
        (Inl NotConnected, notifyListeners B ''error'' connection_error s) \<and>
      (\<forall>ls. listeners s ''error'' = Some ls \<and> (\<forall>l\<in>set ls. quiet ''error'' (B l)) \<longrightarrow>
         invoked (snd (sendMessageWithPhotos B api room content sender ps s)) =
           invoked s @ map (\<lambda>l. (''error'', l, connection_error)) ls)) \<and>
   (isConnected t \<and> api room = Rejected (Some 404) \<longrightarrow>
      sendMessageWithPhotos B api room content sender ps t =
        (Inl (CheckRejected (Some 404)),
         notifyListeners B ''error'' chat_room_deleted (t\<lparr>requested := requested t @ [room]\<rparr>)) \<and>
      (\<forall>ls. listeners t ''error'' = Some ls \<and> (\<forall>l\<in>set ls. quiet ''error'' (B l)) \<longrightarrow>
         invoked (snd (sendMessageWithPhotos B api room content sender ps t)) =
           invoked t @ map (\<lambda>l. (''error'', l, chat_room_deleted)) ls)) \<and>
   (file_size f > MAX_FILE_SIZE \<longrightarrow>
      page_uploadImage post f chatRoom w = (Inl FileTooLarge, w) \<and>
      invoked (webSocketService (snd (page_uploadImage post f chatRoom w))) =
        invoked (webSocketService w))"
proof -
  let ?t1 = "t\<lparr>requested := requested t @ [room]\<rparr>"
  have a: "sendMessageWithPhotos B api room content sender ps s =
      (Inl NotConnected, notifyListeners B ''error'' connection_error s)"
    if "\<not> isConnected s"
    using that by (simp add: sendMessageWithPhotos_def)
  have b: "sendMessageWithPhotos B api room content sender ps t =
      (Inl (CheckRejected (Some 404)), notifyListeners B ''error'' chat_room_deleted ?t1)"
    if "isConnected t" and "api room = Rejected (Some 404)"
    using that by (simp add: sendMessageWithPhotos_def)
  have c: "invoked (notifyListeners B ''error'' connection_error s) =
      invoked s @ map (\<lambda>l. (''error'', l, connection_error)) ls"
    if "listeners s ''error'' = Some ls" and "\<forall>l\<in>set ls. quiet ''error'' (B l)" for ls
    using notify_quiet [of s "''error''" ls B connection_error] that by simp
  have d: "invoked (notifyListeners B ''error'' chat_room_deleted ?t1) =
      invoked t @ map (\<lambda>l. (''error'', l, chat_room_deleted)) ls"
    if "listeners t ''error'' = Some ls" and "\<forall>l\<in>set ls. quiet ''error'' (B l)" for ls
    using notify_quiet [of ?t1 "''error''" ls B chat_room_deleted] that by simp
  have e: "page_uploadImage post f chatRoom w = (Inl FileTooLarge, w)"
    if "file_size f > MAX_FILE_SIZE"
    using that by (simp add: page_uploadImage_def uploadImage_def)
  have p1: "\<not> isConnected s \<longrightarrow>
      sendMessageWithPhotos B api room content sender ps s =
        (Inl NotConnected, notifyListeners B ''error'' connection_error s) \<and>
      (\<forall>ls. listeners s ''error'' = Some ls \<and> (\<forall>l\<in>set ls. quiet ''error'' (B l)) \<longrightarrow>
         invoked (snd (sendMessageWithPhotos B api room content sender ps s)) =
           invoked s @ map (\<lambda>l. (''error'', l, connection_error)) ls)"
    using a c by simp
  have p2: "isConnected t \<and> api room = Rejected (Some 404) \<longrightarrow>
      sendMessageWithPhotos B api room content sender ps t =
        (Inl (CheckRejected (Some 404)),
         notifyListeners B ''error'' chat_room_deleted ?t1) \<and>
      (\<forall>ls. listeners t ''error'' = Some ls \<and> (\<forall>l\<in>set ls. quiet ''error'' (B l)) \<longrightarrow>
         invoked (snd (sendMessageWithPhotos B api room content sender ps t)) =
           invoked t @ map (\<lambda>l. (''error'', l, chat_room_deleted)) ls)"
    using b d by simp
  have p3: "file_size f > MAX_FILE_SIZE \<longrightarrow>
      page_uploadImage post f chatRoom w = (Inl FileTooLarge, w) \<and>
      invoked (webSocketService (snd (page_uploadImage post f chatRoom w))) =
        invoked (webSocketService w)"
    using e by simp
  show ?thesis using p1 p2 p3 by blast
qed

theorem validation_failure_channels_witness:
  "\<not> isConnected idle_service \<and> isConnected connected_service \<and>
   room_deleted 42 = Rejected (Some 404) \<and> file_size oversized > MAX_FILE_SIZE \<and>
   fst (sendMessageWithPhotos no_bodies room_deleted 42 ''hi'' ''ADMIN'' [] idle_service) =
     Inl NotConnected \<and>
   invoked (snd (sendMessageWithPhotos no_bodies room_deleted 42 ''hi'' ''ADMIN'' [] idle_service)) =
     [(''error'', 3, connection_error), (''error'', 4, connection_error)] \<and>
   fst (sendMessageWithPhotos no_bodies room_deleted 42 ''hi'' ''ADMIN'' [] connected_service) =
     Inl (CheckRejected (Some 404)) \<and>
   invoked (snd (sendMessageWithPhotos no_bodies room_deleted 42 ''hi'' ''ADMIN'' []
     connected_service)) = [(''error'', 7, chat_room_deleted)] \<and>
   page_uploadImage storing oversized 42 listening_page = (Inl FileTooLarge, listening_page)"
proof -
  have h1: "\<not> isConnected idle_service"
    by (simp add: idle_service_def addListener_def initial_def isConnected_def)
  have h2: "isConnected connected_service"
    by (simp add: connected_service_eq isConnected_def)
  have h3: "room_deleted 42 = Rejected (Some 404)" by (simp add: room_deleted_def)
  have h4: "file_size oversized > MAX_FILE_SIZE" by (simp add: oversized_def MAX_FILE_SIZE_def)
  have h5: "listeners idle_service ''error'' = Some [3, 4]"
    by (simp add: idle_service_def addListener_def initial_def)
  have h6: "\<forall>l\<in>set [3, 4]. quiet ''error'' (no_bodies l)" by (simp add: no_bodies_def)
  have h7: "listeners connected_service ''error'' = Some [7]" by (simp add: connected_service_eq)
  have h8: "\<forall>l\<in>set [7]. quiet ''error'' (no_bodies l)" by (simp add: no_bodies_def)
  have e: "invoked idle_service = []" "invoked connected_service = []"
    by (simp_all add: idle_service_def addListener_def initial_def connected_service_eq)
  note th = validation_failure_channels [where s = idle_service and t = connected_service
      and api = room_deleted and room = 42 and f = oversized and B = no_bodies
      and content = "''hi''" and sender = "''ADMIN''" and ps = "[]" and post = storing
      and chatRoom = 42 and w = listening_page]
  have a: "fst (sendMessageWithPhotos no_bodies room_deleted 42 ''hi'' ''ADMIN'' [] idle_service) =
      Inl NotConnected"
    using th h1 by simp
  have b: "invoked (snd (sendMessageWithPhotos no_bodies room_deleted 42 ''hi'' ''ADMIN'' []
      idle_service)) = invoked idle_service @ map (\<lambda>l. (''error'', l, connection_error)) [3, 4]"
    using th h1 h5 h6 by blast
  have c: "fst (sendMessageWithPhotos no_bodies room_deleted 42 ''hi'' ''ADMIN'' []
      connected_service) = Inl (CheckRejected (Some 404))"
    using th h2 h3 by simp
  have d: "invoked (snd (sendMessageWithPhotos no_bodies room_deleted 42 ''hi'' ''ADMIN'' []
      connected_service)) =
      invoked connected_service @ map (\<lambda>l. (''error'', l, chat_room_deleted)) [7]"
    using th h2 h3 h7 h8 by blast
  have u: "page_uploadImage storing oversized 42 listening_page = (Inl FileTooLarge, listening_page)"
    using th h4 by blast
  show ?thesis using a b c d u e h1 h2 h3 h4 by simp
qed

text \<open>
  C5 as stated fails for the upload adapter: with two error listeners registered, the
  upload of a file of 10 MiB and one byte is rejected with the size error and no
  listener is invoked.
\<close>

theorem upload_rejection_reaches_no_listener:
  "listeners (webSocketService listening_page) ''error'' = Some [3, 4] \<and>
   fst (page_uploadImage storing oversized 42 listening_page) = Inl FileTooLarge \<and>
   invoked (webSocketService (snd (page_uploadImage storing oversized 42 listening_page))) = []"
  by (simp add: listening_page_def idle_service_def addListener_def initial_def
      page_uploadImage_def uploadImage_def oversized_def MAX_FILE_SIZE_def)

text \<open>
  C9. \<open>deleteFolder\<close> first asks for the listing of the prefix. When the listing has
  keys, it then makes one \<open>deleteObjects\<close> call with exactly those keys, in order, and
  makes no other call; its outcome is that of the batch call. When the listing is empty
  it makes no further call and returns normally.
\<close>

theorem deleteFolder_lists_then_deletes:
  "(\<forall>keys. listObjects bucketName p = Inr keys \<and> keys \<noteq> [] \<longrightarrow>
      snd (deleteFolder listObjects deleteObjects bucketName p calls) =
        calls @ [ListObjects bucketName p, DeleteObjects bucketName keys] \<and>
      fst (deleteFolder listObjects deleteObjects bucketName p calls) =
        (case deleteObjects bucketName keys of Inl e \<Rightarrow> Inl e | Inr u \<Rightarrow> Inr ())) \<and>
   (listObjects bucketName p = Inr [] \<longrightarrow>
      deleteFolder listObjects deleteObjects bucketName p calls =
        (Inr (), calls @ [ListObjects bucketName p]))"
  by (simp add: deleteFolder_def Let_def split: sum.splits)

theorem deleteFolder_lists_then_deletes_witness:
  "deleteFolder listing deleting ''bucket'' ''chat/1/'' [] =
     (Inr (), [ListObjects ''bucket'' ''chat/1/'',
               DeleteObjects ''bucket'' [''chat/1/a.png'', ''chat/1/b.png'']]) \<and>
   deleteFolder listing deleting ''bucket'' ''chat/2/'' [] =
     (Inr (), [ListObjects ''bucket'' ''chat/2/''])"
proof -
  have a: "listing ''bucket'' ''chat/1/'' = Inr [''chat/1/a.png'', ''chat/1/b.png'']"
    by (simp add: listing_def bucket_keys_def)
  have b: "listing ''bucket'' ''chat/2/'' = Inr []"
    by (simp add: listing_def bucket_keys_def)
  have c: "deleting ''bucket'' [''chat/1/a.png'', ''chat/1/b.png''] = Inr ()"
    by (simp add: deleting_def)
  show ?thesis
    using deleteFolder_lists_then_deletes [of listing "''bucket''" "''chat/1/''" deleting "[]"]
      deleteFolder_lists_then_deletes [of listing "''bucket''" "''chat/2/''" deleting "[]"]
      a b c
    by (simp add: prod_eq_iff)
qed

end
